theory Spec2Isabelle
  imports Complex_Main "HOL-Library.Multiset"
begin

section \<open>Values\<close>

text \<open>
  The program of \<^verbatim>\<open>src/main.mjs\<close> handles three kinds of JavaScript values:
  participant identifiers (strings), the value \<^verbatim>\<open>undefined\<close> that a destructuring of
  an empty array yields, \<^verbatim>\<open>null\<close> (what \<^verbatim>\<open>JSON.stringify\<close> writes for an
  \<^verbatim>\<open>undefined\<close> array element), and arrays of those: a pair \<^verbatim>\<open>[leader, member]\<close>.
\<close>

datatype prim = Undefined | Null | Str string

datatype jsval = Prim prim | Arr "prim list"

section \<open>The two files\<close>

text \<open>
  \<^verbatim>\<open>./students.json\<close> holds a JSON array of strings, \<^verbatim>\<open>./last_brief.json\<close> the
  grouping of the previous run, a JSON array of arrays (the JSDoc of \<^verbatim>\<open>hasSameGroup\<close>
  gives it the type \<^verbatim>\<open>string[][] | null\<close>; an odd pool makes the program itself write a
  \<^verbatim>\<open>null\<close> member). A file is absent, unparsable, or holds such a document.
\<close>

datatype jprim = JNull | JStr string

datatype 'a content = Malformed | Json 'a

datatype error = ENOENT | SyntaxError

record files =
  last_brief_json :: "jprim list list content option"
  students_json :: "string list content option"

text \<open>
  \<^verbatim>\<open>JSON.stringify\<close> writes \<^verbatim>\<open>null\<close> for an \<^verbatim>\<open>undefined\<close> element of an array, and
  \<^verbatim>\<open>JSON.parse\<close> gives back strings and \<^verbatim>\<open>null\<close>.
\<close>

fun parse_prim :: "jprim \<Rightarrow> prim" where
  "parse_prim JNull = Null"
| "parse_prim (JStr s) = Str s"

fun stringify_prim :: "prim \<Rightarrow> jprim" where
  "stringify_prim Undefined = JNull"
| "stringify_prim Null = JNull"
| "stringify_prim (Str s) = JStr s"

definition JSON_parse :: "jprim list list \<Rightarrow> prim list list" where
  "JSON_parse d = map (map parse_prim) d"

definition JSON_stringify :: "prim list list \<Rightarrow> jprim list list" where
  "JSON_stringify gs = map (map stringify_prim) gs"

text \<open>
  \<^verbatim>\<open>const last_brief = fs.existsSync(FILE_PATH) ? JSON.parse(fs.readFileSync(FILE_PATH)) : null\<close>:
  \<open>None\<close> is \<^verbatim>\<open>null\<close>.
\<close>

definition read_last_brief :: "files \<Rightarrow> error + prim list list option" where
  "read_last_brief fs =
     (case last_brief_json fs of
        None \<Rightarrow> Inr None
      | Some Malformed \<Rightarrow> Inl SyntaxError
      | Some (Json d) \<Rightarrow> Inr (Some (JSON_parse d)))"

text \<open>\<^verbatim>\<open>let peoples = JSON.parse(fs.readFileSync('./students.json'))\<close>\<close>

definition read_students :: "files \<Rightarrow> error + string list" where
  "read_students fs =
     (case students_json fs of
        None \<Rightarrow> Inl ENOENT
      | Some Malformed \<Rightarrow> Inl SyntaxError
      | Some (Json d) \<Rightarrow> Inr d)"

section \<open>hasSameGroup\<close>

text \<open>
  \<^verbatim>\<open>Array.prototype.includes\<close> compares with SameValueZero. An element of a previous
  group is a primitive; it is the same value as another primitive when both are equal, and
  never the same value as an array (an object).
\<close>

fun sameValueZero :: "prim \<Rightarrow> jsval \<Rightarrow> bool" where
  "sameValueZero x (Prim y) = (x = y)"
| "sameValueZero x (Arr ys) = False"

definition array_includes :: "prim list \<Rightarrow> jsval \<Rightarrow> bool" where
  "array_includes oneGroup people = list_ex (\<lambda>x. sameValueZero x people) oneGroup"

text \<open>
  \<^verbatim>\<open>
  function hasSameGroup(group, last_brief) {
      if(last_brief == null){ return false }
      return Object.values(last_brief)
          .some((oneGroup)=>group.every((people)=>oneGroup.includes(people)))
  }
  \<close>
\<close>

definition hasSameGroup :: "jsval list \<Rightarrow> prim list list option \<Rightarrow> bool" where
  "hasSameGroup grp last_brief =
     (case last_brief of
        None \<Rightarrow> False
      | Some lb \<Rightarrow> list_ex (\<lambda>oneGroup. list_all (\<lambda>people. array_includes oneGroup people) grp) lb)"

section \<open>The pairing loop\<close>

text \<open>
  The mutable variables \<^verbatim>\<open>peoples\<close> and \<^verbatim>\<open>groups\<close>, and the number of calls of
  \<^verbatim>\<open>Math.random()\<close> made so far: the source of randomness is a sequence \<open>rnd\<close> whose
  \<open>i\<close>-th element is what the \<open>i\<close>-th call returns. JavaScript promises a number in
  \<open>[0, 1)\<close>; the theorems that need it assume it of every element. The number is taken as a
  real and the product with the length as exact, which gives \<^verbatim>\<open>Math.floor\<close> the same
  range of results, \<open>0\<close> up to the length less one, as the floating-point product.
\<close>

record state =
  peoples :: "string list"
  groups :: "prim list list"
  calls :: nat

text \<open>\<^verbatim>\<open>peoples.pop()\<close>: the last element, removed; \<^verbatim>\<open>undefined\<close> on an empty array.\<close>

definition pop :: "string list \<Rightarrow> prim \<times> string list" where
  "pop xs = (if xs = [] then (Undefined, []) else (Str (last xs), butlast xs))"

text \<open>
  \<^verbatim>\<open>xs.splice(start, deleteCount)\<close>: a negative start counts from the end, both
  arguments are clamped to the array; the removed elements and what is left.
\<close>

definition splice_arr :: "int \<Rightarrow> int \<Rightarrow> string list \<Rightarrow> string list \<times> string list" where
  "splice_arr start deleteCount xs =
     (let len = int (length xs);
          actualStart = (if start < 0 then max (len + start) 0 else min start len);
          actualDeleteCount = min (max deleteCount 0) (len - actualStart);
          a = nat actualStart;
          d = nat actualDeleteCount
      in (take d (drop a xs), take a xs @ drop (a + d) xs))"

text \<open>\<^verbatim>\<open>const [member] = ...\<close>: the first element, \<^verbatim>\<open>undefined\<close> when there is none.\<close>

fun first :: "string list \<Rightarrow> prim" where
  "first [] = Undefined"
| "first (x # xs) = Str x"

text \<open>
  \<^verbatim>\<open>
  const leader = peoples.pop()
  const index = Math.floor(Math.random() * peoples.length) - 1
  const [member] = peoples.splice(index, 1)
  groups = [...groups, [leader, member]]
  \<close>
\<close>

definition pair_step :: "(nat \<Rightarrow> real) \<Rightarrow> state \<Rightarrow> state" where
  "pair_step rnd s =
     (let (leader, ps) = pop (peoples s);
          index = \<lfloor>rnd (calls s) * real (length ps)\<rfloor> - 1;
          (removed, ps') = splice_arr index 1 ps;
          member = first removed
      in \<lparr>peoples = ps', groups = groups s @ [[leader, member]], calls = Suc (calls s)\<rparr>)"

text \<open>\<^verbatim>\<open>while(peoples.length > 0) { ... }\<close>\<close>

function pair_loop :: "(nat \<Rightarrow> real) \<Rightarrow> state \<Rightarrow> state" where
  "pair_loop rnd s = (if length (peoples s) > 0 then pair_loop rnd (pair_step rnd s) else s)"
  by pat_completeness auto
termination
proof (relation "measure (\<lambda>(rnd, s). length (peoples s))")
  show "wf (measure (\<lambda>(rnd :: nat \<Rightarrow> real, s). length (peoples s)))"
    by simp
next
  fix rnd :: "nat \<Rightarrow> real" and s :: state
  assume "0 < length (peoples s)"
  then have ne: "peoples s \<noteq> []" by simp
  define i where "i = \<lfloor>rnd (calls s) * real (length (butlast (peoples s)))\<rfloor> - 1"
  have "length (snd (splice_arr i 1 xs)) \<le> length xs" for xs
    by (simp add: splice_arr_def Let_def)
  then have "length (snd (splice_arr i 1 (butlast (peoples s)))) \<le> length (butlast (peoples s))" .
  moreover have "peoples (pair_step rnd s) = snd (splice_arr i 1 (butlast (peoples s)))"
    using ne by (simp add: pair_step_def pop_def i_def split: prod.splits)
  moreover have "length (butlast (peoples s)) < length (peoples s)"
    using ne by simp
  ultimately show "((rnd, pair_step rnd s), (rnd, s)) \<in> measure (\<lambda>(rnd, s). length (peoples s))"
    by simp
qed

declare pair_loop.simps [simp del]

section \<open>The retry loop and the program\<close>

text \<open>
  \<^verbatim>\<open>do { while ... } while(hasSameGroup(groups, last_brief))\<close>: the loop may run for
  ever, which is the value \<open>None\<close>. Every element of \<^verbatim>\<open>groups\<close> is an array.
\<close>

partial_function (option) do_while :: "(nat \<Rightarrow> real) \<Rightarrow> prim list list option \<Rightarrow> state \<Rightarrow> state option" where
  "do_while rnd last_brief s =
     (let s' = pair_loop rnd s
      in if hasSameGroup (map Arr (groups s')) last_brief then do_while rnd last_brief s' else Some s')"

text \<open>The variables when the retry loop is entered: the pool as read, \<^verbatim>\<open>let groups = []\<close>.\<close>

definition initial :: "string list \<Rightarrow> state" where
  "initial pool = \<lparr>peoples = pool, groups = [], calls = 0\<rparr>"

text \<open>
  The whole script: read the two files, \<^verbatim>\<open>let groups = []\<close>, run the loops, write the
  state file and print the grouping. The result is \<open>None\<close> when the script does not
  return, an error when a read throws, and otherwise the files as left and what is printed.
\<close>

definition main :: "(nat \<Rightarrow> real) \<Rightarrow> files \<Rightarrow> (error + files \<times> prim list list) option" where
  "main rnd fs =
     (case read_last_brief fs of
        Inl e \<Rightarrow> Some (Inl e)
      | Inr last_brief \<Rightarrow>
          (case read_students fs of
             Inl e \<Rightarrow> Some (Inl e)
           | Inr pool \<Rightarrow>
               (case do_while rnd last_brief (initial pool) of
                  None \<Rightarrow> None
                | Some s \<Rightarrow>
                    Some (Inr (fs\<lparr>last_brief_json := Some (Json (JSON_stringify (groups s)))\<rparr>,
                               groups s)))))"

section \<open>The collision predicate as the specification words it\<close>

text \<open>
  The specification calls a grouping equal to the previous one when some pair of the new
  grouping has both its members together in some pair of the previous grouping.
\<close>

definition spec_collision :: "prim list list \<Rightarrow> prim list list \<Rightarrow> bool" where
  "spec_collision grouping previous =
     list_ex (\<lambda>pair. list_ex (\<lambda>prev_pair. list_all (\<lambda>m. m \<in> set prev_pair) pair) previous) grouping"

section \<open>What hasSameGroup computes on a grouping\<close>

text \<open>
  The loop passes \<^verbatim>\<open>groups\<close>, an array of pairs, where the JSDoc announces one group
  (\<^verbatim>\<open>string[]\<close>): each \<^verbatim>\<open>people\<close> is then a pair, which no previous group includes.
\<close>

lemma array_includes_Arr: "array_includes oneGroup (Arr p) = False"
  by (induction oneGroup) (simp_all add: array_includes_def)

lemma hasSameGroup_groups:
  "hasSameGroup (map Arr gs) last_brief = (gs = [] \<and> (\<exists>lb. last_brief = Some lb \<and> lb \<noteq> []))"
proof (cases last_brief)
  case None
  then show ?thesis by (simp add: hasSameGroup_def)
next
  case (Some lb)
  show ?thesis
  proof (cases gs)
    case Nil
    then show ?thesis using Some by (cases lb) (simp_all add: hasSameGroup_def)
  next
    case (Cons g gs')
    then show ?thesis using Some
      by (simp add: hasSameGroup_def array_includes_Arr list_ex_iff)
  qed
qed

lemma pair_loop_empty: "peoples s = [] \<Longrightarrow> pair_loop rnd s = s"
  by (simp add: pair_loop.simps)

lemma pair_loop_unfold: "peoples s \<noteq> [] \<Longrightarrow> pair_loop rnd s = pair_loop rnd (pair_step rnd s)"
  by (subst pair_loop.simps) simp

lemma groups_pair_step: "groups (pair_step rnd s) \<noteq> []"
  by (simp add: pair_step_def Let_def split: prod.splits)

lemma peoples_pair_loop: "peoples (pair_loop rnd s) = []"
  by (induction rnd s rule: pair_loop.induct) (subst pair_loop.simps, simp)

lemma groups_pair_loop_grow: "groups s \<noteq> [] \<Longrightarrow> groups (pair_loop rnd s) \<noteq> []"
proof (induction rnd s rule: pair_loop.induct)
  case (1 rnd s)
  show ?case
  proof (cases "peoples s = []")
    case True
    then show ?thesis using 1 by (simp add: pair_loop_empty)
  next
    case False
    then show ?thesis using 1 by (simp add: pair_loop_unfold groups_pair_step)
  qed
qed

lemma groups_pair_loop_nonempty: "peoples s \<noteq> [] \<Longrightarrow> groups (pair_loop rnd s) \<noteq> []"
  by (simp add: pair_loop_unfold groups_pair_loop_grow groups_pair_step)

lemma do_while_once:
  "\<not> hasSameGroup (map Arr (groups (pair_loop rnd s))) last_brief \<Longrightarrow>
   do_while rnd last_brief s = Some (pair_loop rnd s)"
  by (subst do_while.simps) (simp add: Let_def)

lemma do_while_diverges_aux:
  assumes ret: "do_while rnd last_brief s = Some y"
  shows "\<not> (peoples s = [] \<and> groups s = [] \<and> (\<exists>lb. last_brief = Some lb \<and> lb \<noteq> []))"
proof (rule do_while.raw_induct
    [where P = "\<lambda>rnd last_brief s y.
       \<not> (peoples s = [] \<and> groups s = [] \<and> (\<exists>lb. last_brief = Some lb \<and> lb \<noteq> []))",
     OF _ ret])
  fix f :: "(nat \<Rightarrow> real) \<Rightarrow> prim list list option \<Rightarrow> state \<Rightarrow> state option"
  fix rnd last_brief s y
  assume IH: "\<And>rnd last_brief s y. f rnd last_brief s = Some y \<Longrightarrow>
     \<not> (peoples s = [] \<and> groups s = [] \<and> (\<exists>lb. last_brief = Some lb \<and> lb \<noteq> []))"
  assume body: "(let s' = pair_loop rnd s
     in if hasSameGroup (map Arr (groups s')) last_brief then f rnd last_brief s' else Some s') = Some y"
  show "\<not> (peoples s = [] \<and> groups s = [] \<and> (\<exists>lb. last_brief = Some lb \<and> lb \<noteq> []))"
  proof
    assume a: "peoples s = [] \<and> groups s = [] \<and> (\<exists>lb. last_brief = Some lb \<and> lb \<noteq> [])"
    then have e: "pair_loop rnd s = s" by (simp add: pair_loop_empty)
    have h: "hasSameGroup (map Arr (groups s)) last_brief"
      using a hasSameGroup_groups [of "groups s" last_brief] by simp
    from body e h have "f rnd last_brief s = Some y" by (simp add: Let_def)
    from IH [OF this] a show False by simp
  qed
qed

lemma do_while_diverges:
  "lb \<noteq> [] \<Longrightarrow> do_while rnd (Some lb) \<lparr>peoples = [], groups = [], calls = c\<rparr> = None"
  using do_while_diverges_aux [of rnd "Some lb" "\<lparr>peoples = [], groups = [], calls = c\<rparr>"]
  by (cases "do_while rnd (Some lb) \<lparr>peoples = [], groups = [], calls = c\<rparr>") auto

section \<open>One pass of the pairing loop\<close>

lemma floor_index_range:
  fixes r :: real
  assumes "0 \<le> r" "r < 1" "0 < n"
  shows "0 \<le> \<lfloor>r * real n\<rfloor> \<and> \<lfloor>r * real n\<rfloor> < int n"
proof -
  have "0 \<le> r * real n" using assms by simp
  then have lo: "0 \<le> \<lfloor>r * real n\<rfloor>" by simp
  have "r * real n < real n" using assms by simp
  then have "\<lfloor>r * real n\<rfloor> < int n" by (simp add: floor_less_iff)
  with lo show ?thesis by simp
qed

lemma remove_nth_mset:
  assumes "a < length xs"
  shows "take 1 (drop a xs) = [xs ! a] \<and> mset xs = add_mset (xs ! a) (mset (take a xs @ drop (Suc a) xs))"
proof -
  have d: "drop a xs = xs ! a # drop (Suc a) xs"
    using assms by (simp add: Cons_nth_drop_Suc)
  have "xs = take a xs @ drop a xs" by simp
  then have "mset xs = mset (take a xs) + mset (drop a xs)"
    by (metis mset_append)
  then show ?thesis using d by simp
qed

lemma splice_arr_one:
  assumes "- int (length xs) \<le> i" "i < int (length xs)"
  shows "\<exists>x rest. splice_arr i 1 xs = ([x], rest) \<and> mset xs = add_mset x (mset rest)"
proof -
  define a where "a = nat (if i < 0 then int (length xs) + i else i)"
  have a: "a < length xs" using assms by (auto simp: a_def)
  have "splice_arr i 1 xs = (take 1 (drop a xs), take a xs @ drop (Suc a) xs)"
    using assms a by (auto simp: splice_arr_def Let_def a_def min_def max_def)
  then show ?thesis using remove_nth_mset [OF a] by auto
qed

lemma splice_arr_Nil: "splice_arr i 1 [] = ([], [])"
  by (simp add: splice_arr_def Let_def)

lemma pair_step_single:
  "peoples s = [x] \<Longrightarrow>
   pair_step rnd s = \<lparr>peoples = [], groups = groups s @ [[Str x, Undefined]], calls = Suc (calls s)\<rparr>"
  by (simp add: pair_step_def pop_def splice_arr_Nil)

lemma pair_step_two:
  assumes r: "0 \<le> rnd (calls s)" "rnd (calls s) < 1" and len: "2 \<le> length (peoples s)"
  shows "\<exists>a b ps'. pair_step rnd s =
           \<lparr>peoples = ps', groups = groups s @ [[Str a, Str b]], calls = Suc (calls s)\<rparr> \<and>
         mset (peoples s) = add_mset a (add_mset b (mset ps'))"
proof -
  define ps where "ps = butlast (peoples s)"
  define i where "i = \<lfloor>rnd (calls s) * real (length ps)\<rfloor> - 1"
  have ne: "peoples s \<noteq> []" using len by auto
  have psne: "0 < length ps" using len by (simp add: ps_def)
  have "- int (length ps) \<le> i \<and> i < int (length ps)"
    using floor_index_range [OF r psne] unfolding i_def by linarith
  then obtain b rest where sp: "splice_arr i 1 ps = ([b], rest)" and m: "mset ps = add_mset b (mset rest)"
    using splice_arr_one [of ps i] by blast
  have st: "pair_step rnd s =
      \<lparr>peoples = rest, groups = groups s @ [[Str (last (peoples s)), Str b]], calls = Suc (calls s)\<rparr>"
    using ne sp by (simp add: pair_step_def pop_def ps_def [symmetric] i_def [symmetric])
  have "peoples s = ps @ [last (peoples s)]" using ne by (simp add: ps_def)
  then have "mset (peoples s) = add_mset (last (peoples s)) (mset ps)"
    by (metis mset_append add_mset_add_single mset.simps)
  with m st show ?thesis by auto
qed

lemma pair_loop_even:
  "\<forall>i. 0 \<le> rnd i \<and> rnd i < 1 \<Longrightarrow> even (length (peoples s)) \<Longrightarrow>
    \<exists>new. groups (pair_loop rnd s) = groups s @ new \<and>
          length new = length (peoples s) div 2 \<and>
          (\<forall>g \<in> set new. \<exists>a b. g = [Str a, Str b]) \<and>
          mset (concat new) = mset (map Str (peoples s))"
proof (induction rnd s rule: pair_loop.induct)
  case (1 rnd s)
  show ?case
  proof (cases "peoples s = []")
    case True
    then show ?thesis by (simp add: pair_loop_empty)
  next
    case False
    then have "length (peoples s) \<noteq> 0" by simp
    moreover have "length (peoples s) \<noteq> 1" using "1.prems"(2) by auto
    ultimately have len: "2 \<le> length (peoples s)" by arith
    obtain a b ps' where st: "pair_step rnd s =
        \<lparr>peoples = ps', groups = groups s @ [[Str a, Str b]], calls = Suc (calls s)\<rparr>"
      and m: "mset (peoples s) = add_mset a (add_mset b (mset ps'))"
      using pair_step_two [of rnd s] "1.prems"(1) len by blast
    have sz: "length (peoples s) = Suc (Suc (length ps'))"
      using m by (metis size_mset size_add_mset)
    then have ev: "even (length (peoples (pair_step rnd s)))"
      using "1.prems"(2) st by simp
    obtain new where g: "groups (pair_loop rnd (pair_step rnd s)) = groups (pair_step rnd s) @ new"
      and l: "length new = length ps' div 2"
      and w: "\<forall>g \<in> set new. \<exists>a b. g = [Str a, Str b]"
      and c: "mset (concat new) = mset (map Str ps')"
      using "1.IH" [OF _ "1.prems"(1) ev] False st by auto
    have "groups (pair_loop rnd s) = groups s @ ([Str a, Str b] # new)"
      using g st False by (simp add: pair_loop_unfold)
    moreover have "length ([Str a, Str b] # new) = length (peoples s) div 2"
      using l sz by simp
    moreover have "\<forall>g \<in> set ([Str a, Str b] # new). \<exists>a b. g = [Str a, Str b]"
      using w by simp
    moreover have "mset (concat ([Str a, Str b] # new)) = mset (map Str (peoples s))"
      using c m by simp
    ultimately show ?thesis by blast
  qed
qed

lemma pair_loop_odd:
  "\<forall>i. 0 \<le> rnd i \<and> rnd i < 1 \<Longrightarrow> odd (length (peoples s)) \<Longrightarrow>
    \<exists>init x. groups (pair_loop rnd s) = groups s @ init @ [[Str x, Undefined]] \<and>
          length init = length (peoples s) div 2 \<and>
          (\<forall>g \<in> set init. \<exists>a b. g = [Str a, Str b]) \<and>
          add_mset (Str x) (mset (concat init)) = mset (map Str (peoples s))"
proof (induction rnd s rule: pair_loop.induct)
  case (1 rnd s)
  have ne: "peoples s \<noteq> []" using "1.prems"(2) by auto
  show ?case
  proof (cases "length (peoples s) = 1")
    case True
    then obtain x where x: "peoples s = [x]"
      by (cases "peoples s") auto
    have "pair_loop rnd s = pair_step rnd s"
      using x by (simp add: pair_loop_unfold pair_step_single pair_loop_empty)
    then have "groups (pair_loop rnd s) = groups s @ [] @ [[Str x, Undefined]]"
      using x by (simp add: pair_step_single)
    moreover have "add_mset (Str x) (mset (concat [])) = mset (map Str (peoples s))"
      using x by simp
    moreover have "length ([] :: prim list list) = length (peoples s) div 2"
      using True by simp
    moreover have "\<forall>g \<in> set ([] :: prim list list). \<exists>a b. g = [Str a, Str b]"
      by simp
    ultimately show ?thesis by blast
  next
    case False
    moreover have "length (peoples s) \<noteq> 0" using ne by simp
    ultimately have len: "2 \<le> length (peoples s)" by arith
    obtain a b ps' where st: "pair_step rnd s =
        \<lparr>peoples = ps', groups = groups s @ [[Str a, Str b]], calls = Suc (calls s)\<rparr>"
      and m: "mset (peoples s) = add_mset a (add_mset b (mset ps'))"
      using pair_step_two [of rnd s] "1.prems"(1) len by blast
    have sz: "length (peoples s) = Suc (Suc (length ps'))"
      using m by (metis size_mset size_add_mset)
    then have od: "odd (length (peoples (pair_step rnd s)))"
      using "1.prems"(2) st by simp
    obtain init x where
          g: "groups (pair_loop rnd (pair_step rnd s)) = groups (pair_step rnd s) @ init @ [[Str x, Undefined]]"
      and l: "length init = length ps' div 2"
      and w: "\<forall>g \<in> set init. \<exists>a b. g = [Str a, Str b]"
      and c: "add_mset (Str x) (mset (concat init)) = mset (map Str ps')"
      using "1.IH" [OF _ "1.prems"(1) od] ne st by auto
    have "groups (pair_loop rnd s) = groups s @ ([Str a, Str b] # init) @ [[Str x, Undefined]]"
      using g st ne by (simp add: pair_loop_unfold)
    moreover have "length ([Str a, Str b] # init) = length (peoples s) div 2"
      using l sz by simp
    moreover have "\<forall>g \<in> set ([Str a, Str b] # init). \<exists>a b. g = [Str a, Str b]"
      using w by simp
    moreover have "add_mset (Str x) (mset (concat ([Str a, Str b] # init))) = mset (map Str (peoples s))"
      using c [symmetric] m by simp
    ultimately show ?thesis by blast
  qed
qed

section \<open>The script as a whole\<close>

lemma hasSameGroup_reread:
  "hasSameGroup (map Arr gs) (Some (JSON_parse (JSON_stringify gs))) = False"
  by (simp add: hasSameGroup_groups JSON_parse_def JSON_stringify_def)

lemma hasSameGroup_documented_use:
  "hasSameGroup (map (\<lambda>p. Prim (Str p)) g) (Some lb) =
     list_ex (\<lambda>oneGroup. list_all (\<lambda>p. Str p \<in> set oneGroup) g) lb"
  by (simp add: hasSameGroup_def array_includes_def list_all_iff list_ex_iff)

lemma main_returns:
  "read_last_brief fs = Inr last_brief \<Longrightarrow> read_students fs = Inr pool \<Longrightarrow>
   do_while rnd last_brief (initial pool) = Some s \<Longrightarrow>
   main rnd fs = Some (Inr (fs\<lparr>last_brief_json := Some (Json (JSON_stringify (groups s)))\<rparr>, groups s))"
  by (simp add: main_def)

lemma do_while_nonempty:
  "pool \<noteq> [] \<Longrightarrow> do_while rnd last_brief (initial pool) = Some (pair_loop rnd (initial pool))"
  by (rule do_while_once) (simp add: hasSameGroup_groups groups_pair_loop_nonempty initial_def)

text \<open>
  Nothing in the retry loop empties \<^verbatim>\<open>groups\<close> or refills \<^verbatim>\<open>peoples\<close>: a pass started
  in the state a pass ended in changes nothing, and a retry, which happens only when
  \<^verbatim>\<open>hasSameGroup\<close> is true, goes on from that state and never returns.
\<close>

lemma pair_loop_again: "pair_loop rnd (pair_loop rnd s) = pair_loop rnd s"
  by (simp add: pair_loop_empty peoples_pair_loop)

lemma do_while_retry:
  "hasSameGroup (map Arr (groups (pair_loop rnd s))) last_brief \<Longrightarrow>
   do_while rnd last_brief s = do_while rnd last_brief (pair_loop rnd s)"
  by (subst do_while.simps) (simp add: Let_def)

lemma do_while_retry_never_returns:
  assumes "hasSameGroup (map Arr (groups (pair_loop rnd s))) last_brief"
  shows "do_while rnd last_brief s = None"
proof -
  have g: "groups (pair_loop rnd s) = []" and l: "\<exists>lb. last_brief = Some lb \<and> lb \<noteq> []"
    using assms hasSameGroup_groups [of "groups (pair_loop rnd s)" last_brief] by simp_all
  have "peoples (pair_loop rnd s) = []" by (rule peoples_pair_loop)
  then have "do_while rnd last_brief (pair_loop rnd s) = None"
    using g l do_while_diverges_aux [of rnd last_brief "pair_loop rnd s"]
    by (cases "do_while rnd last_brief (pair_loop rnd s)") auto
  then show ?thesis using do_while_retry [OF assms] by simp
qed

lemma eval_ABCD:
  "pair_loop (\<lambda>_. 0) (initial [''A'', ''B'', ''C'', ''D'']) =
     \<lparr>peoples = [], groups = [[Str ''D'', Str ''C''], [Str ''B'', Str ''A'']], calls = 2\<rparr>"
  by (simp add: initial_def pair_loop.simps pair_step_def pop_def splice_arr_def Let_def)

lemma eval_AB_half:
  "pair_loop (\<lambda>_. 1 / 2) (initial [''A'', ''B'']) =
     \<lparr>peoples = [], groups = [[Str ''B'', Str ''A'']], calls = 1\<rparr>"
  by (simp add: initial_def pair_loop.simps pair_step_def pop_def splice_arr_def Let_def)

lemma eval_AB_zero:
  "pair_loop (\<lambda>_. 0) (initial [''A'', ''B'']) =
     \<lparr>peoples = [], groups = [[Str ''B'', Str ''A'']], calls = 1\<rparr>"
  by (simp add: initial_def pair_loop.simps pair_step_def pop_def splice_arr_def Let_def)

lemma distinct_concat_unique_index:
  "distinct (concat gs) \<Longrightarrow> i < length gs \<Longrightarrow> j < length gs \<Longrightarrow>
   x \<in> set (gs ! i) \<Longrightarrow> x \<in> set (gs ! j) \<Longrightarrow> i = j"
proof (induction gs arbitrary: i j)
  case Nil
  then show ?case by simp
next
  case (Cons g gs)
  have disj: "set g \<inter> set (concat gs) = {}" and dc: "distinct (concat gs)"
    using Cons.prems(1) by auto
  have inner: "k < length gs \<Longrightarrow> x \<in> set (gs ! k) \<Longrightarrow> x \<in> set (concat gs)" for k
    by auto
  show ?case
  proof (cases i)
    case 0
    show ?thesis
    proof (cases j)
      case 0
      with \<open>i = 0\<close> show ?thesis by simp
    next
      case (Suc j')
      with Cons.prems \<open>i = 0\<close> disj inner [of j'] show ?thesis by auto
    qed
  next
    case (Suc i')
    show ?thesis
    proof (cases j)
      case 0
      with Cons.prems \<open>i = Suc i'\<close> disj inner [of i'] show ?thesis by auto
    next
      case (Suc j')
      with Cons.prems \<open>i = Suc i'\<close> Cons.IH [OF dc, of i' j'] show ?thesis by simp
    qed
  qed
qed

section \<open>The claims\<close>

text \<open>
  Claim C1. The returned and persisted grouping never collides with the previous one; for
  the pool A, B, C, D with previous pairs {A,B} and {C,D} no returned pair has both members
  together in a previous pair. The script does not do this: when every call of
  \<^verbatim>\<open>Math.random()\<close> returns 0, it pairs D with C and B with A, accepts that first
  candidate, writes it and prints it, although both pairs are pairs of the previous run.
\<close>

theorem C1_previous_pairs_returned:
  "main (\<lambda>_. 0)
     \<lparr>last_brief_json = Some (Json [[JStr ''A'', JStr ''B''], [JStr ''C'', JStr ''D'']]),
      students_json = Some (Json [''A'', ''B'', ''C'', ''D''])\<rparr>
   = Some (Inr (\<lparr>last_brief_json = Some (Json [[JStr ''D'', JStr ''C''], [JStr ''B'', JStr ''A'']]),
                  students_json = Some (Json [''A'', ''B'', ''C'', ''D''])\<rparr>,
                [[Str ''D'', Str ''C''], [Str ''B'', Str ''A'']]))
   \<and> spec_collision [[Str ''D'', Str ''C''], [Str ''B'', Str ''A'']]
                     [[Str ''A'', Str ''B''], [Str ''C'', Str ''D'']]"
proof -
  have "do_while (\<lambda>_. 0) (Some [[Str ''A'', Str ''B''], [Str ''C'', Str ''D'']])
          (initial [''A'', ''B'', ''C'', ''D''])
        = Some \<lparr>peoples = [], groups = [[Str ''D'', Str ''C''], [Str ''B'', Str ''A'']], calls = 2\<rparr>"
    using do_while_nonempty [of "[''A'', ''B'', ''C'', ''D'']" "\<lambda>_. 0"] by (simp add: eval_ABCD)
  then show ?thesis
    by (simp add: main_def read_last_brief_def read_students_def JSON_parse_def
        JSON_stringify_def spec_collision_def)
qed

text \<open>
  Claim C2. \<^verbatim>\<open>hasSameGroup\<close> is true exactly when some pair of the new grouping has
  both members together in some pair of the previous grouping. On the grouping that the
  loop passes it is not: it is false for the pair [B, A] against the previous pair [A, B],
  where the co-occurrence predicate holds, and true for the empty grouping, where that
  predicate fails.
\<close>

theorem C2_hasSameGroup_is_not_co_occurrence:
  "hasSameGroup (map Arr [[Str ''B'', Str ''A'']]) (Some [[Str ''A'', Str ''B'']]) = False
   \<and> spec_collision [[Str ''B'', Str ''A'']] [[Str ''A'', Str ''B'']] = True
   \<and> hasSameGroup (map Arr []) (Some [[Str ''A'', Str ''B'']]) = True
   \<and> spec_collision [] [[Str ''A'', Str ''B'']] = False"
  by (simp add: hasSameGroup_def array_includes_def spec_collision_def)

text \<open>
  Claim C3. For every non-empty pool the candidate grouping is non-empty, \<^verbatim>\<open>hasSameGroup\<close>
  is false on it whatever the previous grouping is (absent or not), so the body of the
  retry loop runs once, and the script writes and prints that first candidate.
\<close>

theorem C3_non_empty_pool_single_pass:
  assumes "pool \<noteq> []"
  shows "groups (pair_loop rnd (initial pool)) \<noteq> []
       \<and> hasSameGroup (map Arr (groups (pair_loop rnd (initial pool)))) last_brief = False
       \<and> do_while rnd last_brief (initial pool) = Some (pair_loop rnd (initial pool))
       \<and> (read_last_brief fs = Inr last_brief \<and> read_students fs = Inr pool \<longrightarrow>
            main rnd fs =
              Some (Inr (fs\<lparr>last_brief_json :=
                              Some (Json (JSON_stringify (groups (pair_loop rnd (initial pool)))))\<rparr>,
                         groups (pair_loop rnd (initial pool)))))"
proof -
  have ne: "groups (pair_loop rnd (initial pool)) \<noteq> []"
    using assms by (simp add: groups_pair_loop_nonempty initial_def)
  then have no: "hasSameGroup (map Arr (groups (pair_loop rnd (initial pool)))) last_brief = False"
    by (simp add: hasSameGroup_groups)
  have dw: "do_while rnd last_brief (initial pool) = Some (pair_loop rnd (initial pool))"
    using assms by (rule do_while_nonempty)
  show ?thesis using ne no dw by (simp add: main_returns)
qed

theorem C3_non_empty_pool_single_pass_witness:
  "do_while (\<lambda>_. 1 / 2) (Some [[Str ''A'', Str ''B'']]) (initial [''A'', ''B''])
     = Some (pair_loop (\<lambda>_. 1 / 2) (initial [''A'', ''B'']))
   \<and> main (\<lambda>_. 1 / 2)
       \<lparr>last_brief_json = Some (Json [[JStr ''A'', JStr ''B'']]),
        students_json = Some (Json [''A'', ''B''])\<rparr>
     = Some (Inr (\<lparr>last_brief_json =
                      Some (Json (JSON_stringify (groups (pair_loop (\<lambda>_. 1 / 2) (initial [''A'', ''B'']))))),
                    students_json = Some (Json [''A'', ''B''])\<rparr>,
                  groups (pair_loop (\<lambda>_. 1 / 2) (initial [''A'', ''B'']))))"
  using C3_non_empty_pool_single_pass
    [of "[''A'', ''B'']" "\<lambda>_. 1 / 2" "Some [[Str ''A'', Str ''B'']]"
        "\<lparr>last_brief_json = Some (Json [[JStr ''A'', JStr ''B'']]),
          students_json = Some (Json [''A'', ''B''])\<rparr>"]
  by (simp add: read_last_brief_def read_students_def JSON_parse_def)

text \<open>
  Claim C4. The retry loop ends with a grouping that does not collide with the previous
  one, and may run for ever on a pool of two participants whose only pairing is the
  previous one. For the pool A, B with the previous pair {A,B} the script returns after a
  single pass, and what it writes and prints is the previous pair again.
\<close>

theorem C4_two_participants_return_previous_pair:
  "main (\<lambda>_. 1 / 2)
     \<lparr>last_brief_json = Some (Json [[JStr ''A'', JStr ''B'']]),
      students_json = Some (Json [''A'', ''B''])\<rparr>
   = Some (Inr (\<lparr>last_brief_json = Some (Json [[JStr ''B'', JStr ''A'']]),
                  students_json = Some (Json [''A'', ''B''])\<rparr>,
                [[Str ''B'', Str ''A'']]))
   \<and> spec_collision [[Str ''B'', Str ''A'']] [[Str ''A'', Str ''B'']]"
proof -
  have "do_while (\<lambda>_. 1 / 2) (Some [[Str ''A'', Str ''B'']]) (initial [''A'', ''B''])
        = Some \<lparr>peoples = [], groups = [[Str ''B'', Str ''A'']], calls = 1\<rparr>"
    using do_while_nonempty [of "[''A'', ''B'']" "\<lambda>_. 1 / 2"] by (simp add: eval_AB_half)
  then show ?thesis
    by (simp add: main_def read_last_brief_def read_students_def JSON_parse_def
        JSON_stringify_def spec_collision_def)
qed

text \<open>
  Claim C5. When a candidate collides with the previous grouping, the candidate is
  discarded and the working list is reset to the full original pool before the pairing
  steps are repeated. The script does neither. For the pool A, B, C, D with the previous
  pair {D,C}, when every call of \<^verbatim>\<open>Math.random()\<close> returns 0, the first pass pairs D
  with C again: the candidate collides. The retry loop returns in the state that pass
  ended in, the candidate kept and the working list empty. \<^verbatim>\<open>let groups = []\<close> stands
  before \<^verbatim>\<open>do\<close> and nothing restores \<^verbatim>\<open>peoples\<close>, so that repeating the pairing
  steps from that state, and the retry loop entered in that state, leave the candidate and
  the empty working list as they are.
\<close>

theorem C5_colliding_candidate_kept_no_reset:
  "spec_collision [[Str ''D'', Str ''C''], [Str ''B'', Str ''A'']] [[Str ''D'', Str ''C'']]
   \<and> pair_loop (\<lambda>_. 0) (initial [''A'', ''B'', ''C'', ''D''])
       = \<lparr>peoples = [], groups = [[Str ''D'', Str ''C''], [Str ''B'', Str ''A'']], calls = 2\<rparr>
   \<and> do_while (\<lambda>_. 0) (Some [[Str ''D'', Str ''C'']]) (initial [''A'', ''B'', ''C'', ''D''])
       = Some \<lparr>peoples = [], groups = [[Str ''D'', Str ''C''], [Str ''B'', Str ''A'']], calls = 2\<rparr>
   \<and> pair_loop (\<lambda>_. 0)
         \<lparr>peoples = [], groups = [[Str ''D'', Str ''C''], [Str ''B'', Str ''A'']], calls = 2\<rparr>
       = \<lparr>peoples = [], groups = [[Str ''D'', Str ''C''], [Str ''B'', Str ''A'']], calls = 2\<rparr>
   \<and> do_while (\<lambda>_. 0) (Some [[Str ''D'', Str ''C'']])
         \<lparr>peoples = [], groups = [[Str ''D'', Str ''C''], [Str ''B'', Str ''A'']], calls = 2\<rparr>
       = Some \<lparr>peoples = [], groups = [[Str ''D'', Str ''C''], [Str ''B'', Str ''A'']], calls = 2\<rparr>"
proof -
  have c: "spec_collision [[Str ''D'', Str ''C''], [Str ''B'', Str ''A'']] [[Str ''D'', Str ''C'']]"
    by (simp add: spec_collision_def)
  have d: "do_while (\<lambda>_. 0) (Some [[Str ''D'', Str ''C'']]) (initial [''A'', ''B'', ''C'', ''D''])
        = Some \<lparr>peoples = [], groups = [[Str ''D'', Str ''C''], [Str ''B'', Str ''A'']], calls = 2\<rparr>"
    using do_while_nonempty [of "[''A'', ''B'', ''C'', ''D'']" "\<lambda>_. 0"] by (simp add: eval_ABCD)
  have p: "pair_loop (\<lambda>_. 0)
         \<lparr>peoples = [], groups = [[Str ''D'', Str ''C''], [Str ''B'', Str ''A'']], calls = 2\<rparr>
       = \<lparr>peoples = [], groups = [[Str ''D'', Str ''C''], [Str ''B'', Str ''A'']], calls = 2\<rparr>"
    by (simp add: pair_loop_empty)
  have r: "do_while (\<lambda>_. 0) (Some [[Str ''D'', Str ''C'']])
         \<lparr>peoples = [], groups = [[Str ''D'', Str ''C''], [Str ''B'', Str ''A'']], calls = 2\<rparr>
       = Some \<lparr>peoples = [], groups = [[Str ''D'', Str ''C''], [Str ''B'', Str ''A'']], calls = 2\<rparr>"
    using do_while_once
      [of "\<lambda>_. 0" "\<lparr>peoples = [], groups = [[Str ''D'', Str ''C''], [Str ''B'', Str ''A'']], calls = 2\<rparr>"
          "Some [[Str ''D'', Str ''C'']]"]
    by (simp add: p hasSameGroup_def array_includes_def)
  show ?thesis using c d p r by (simp add: eval_ABCD)
qed

text \<open>
  Claim C6. For an even-length pool of \<open>n\<close> distinct identifiers, and random numbers in
  \<open>[0, 1)\<close>, the grouping has \<open>n / 2\<close> pairs, each of two different participants, the
  members of all pairs are exactly the pool, and every participant is in exactly one
  pair, by position in the grouping. When the pool is not empty this grouping is what the
  retry loop returns.
\<close>

theorem C6_even_pool_partition:
  assumes range: "\<forall>i. 0 \<le> rnd i \<and> rnd i < 1"
    and ev: "even (length pool)"
    and dist: "distinct pool"
  shows "length (groups (pair_loop rnd (initial pool))) = length pool div 2
       \<and> (\<forall>g \<in> set (groups (pair_loop rnd (initial pool))). \<exists>a b. g = [Str a, Str b] \<and> a \<noteq> b)
       \<and> mset (concat (groups (pair_loop rnd (initial pool)))) = mset (map Str pool)
       \<and> distinct (concat (groups (pair_loop rnd (initial pool))))
       \<and> (\<forall>p \<in> set pool. \<exists>!i. i < length (groups (pair_loop rnd (initial pool)))
                                \<and> Str p \<in> set (groups (pair_loop rnd (initial pool)) ! i))
       \<and> (pool \<noteq> [] \<longrightarrow>
            do_while rnd last_brief (initial pool) = Some (pair_loop rnd (initial pool)))"
proof -
  define gs where "gs = groups (pair_loop rnd (initial pool))"
  have "even (length (peoples (initial pool)))" using ev by (simp add: initial_def)
  from pair_loop_even [OF range this]
  have len: "length gs = length pool div 2"
    and shape: "\<forall>g \<in> set gs. \<exists>a b. g = [Str a, Str b]"
    and ms: "mset (concat gs) = mset (map Str pool)"
    by (auto simp: initial_def gs_def)
  have "distinct (map Str pool)" using dist by (simp add: distinct_map inj_on_def)
  then have dc: "distinct (concat gs)"
    using ms by (metis mset_eq_imp_distinct_iff)
  have shape': "\<forall>g \<in> set gs. \<exists>a b. g = [Str a, Str b] \<and> a \<noteq> b"
  proof
    fix g assume g: "g \<in> set gs"
    then obtain a b where ab: "g = [Str a, Str b]" using shape by blast
    have "distinct g" using dc g by (auto simp: distinct_concat_iff)
    with ab show "\<exists>a b. g = [Str a, Str b] \<and> a \<noteq> b" by auto
  qed
  have uniq: "\<forall>p \<in> set pool. \<exists>!i. i < length gs \<and> Str p \<in> set (gs ! i)"
  proof
    fix p assume "p \<in> set pool"
    then have "Str p \<in> set (map Str pool)" by simp
    then have "Str p \<in> set (concat gs)" using ms by (metis mset_eq_setD)
    then obtain g where "g \<in> set gs" "Str p \<in> set g" by auto
    then obtain i where i: "i < length gs \<and> Str p \<in> set (gs ! i)"
      by (auto simp: in_set_conv_nth)
    show "\<exists>!i. i < length gs \<and> Str p \<in> set (gs ! i)"
    proof (rule ex1I [of _ i])
      show "i < length gs \<and> Str p \<in> set (gs ! i)" by (rule i)
    next
      fix j assume "j < length gs \<and> Str p \<in> set (gs ! j)"
      with i show "j = i" using distinct_concat_unique_index [OF dc, of j i "Str p"] by simp
    qed
  qed
  have dw: "pool \<noteq> [] \<longrightarrow> do_while rnd last_brief (initial pool) = Some (pair_loop rnd (initial pool))"
    by (simp add: do_while_nonempty)
  show ?thesis using len shape' ms dc uniq dw unfolding gs_def by blast
qed

theorem C6_even_pool_partition_witness:
  "(\<forall>i. (0::real) \<le> (\<lambda>_. 1 / 2) i \<and> (\<lambda>_. 1 / 2 :: real) i < 1)
   \<and> even (length [''A'', ''B'', ''C'', ''D''])
   \<and> distinct [''A'', ''B'', ''C'', ''D'']
   \<and> length (groups (pair_loop (\<lambda>_. 1 / 2) (initial [''A'', ''B'', ''C'', ''D'']))) = 2
   \<and> mset (concat (groups (pair_loop (\<lambda>_. 1 / 2) (initial [''A'', ''B'', ''C'', ''D'']))))
       = mset (map Str [''A'', ''B'', ''C'', ''D''])
   \<and> do_while (\<lambda>_. 1 / 2) None (initial [''A'', ''B'', ''C'', ''D''])
       = Some (pair_loop (\<lambda>_. 1 / 2) (initial [''A'', ''B'', ''C'', ''D'']))"
proof -
  have r: "\<forall>i. (0::real) \<le> (\<lambda>_. 1 / 2) i \<and> (\<lambda>_. 1 / 2 :: real) i < 1" by simp
  have e: "even (length [''A'', ''B'', ''C'', ''D''])" by simp
  have d: "distinct [''A'', ''B'', ''C'', ''D'']" by simp
  show ?thesis
    using r e d C6_even_pool_partition [OF r e d, of None] by simp
qed

text \<open>
  Claim C7. After a run, the grouping read back from the state file is equal to the one
  generated, in the sense of \<^verbatim>\<open>hasSameGroup\<close>. For the pool A, B on a first run the
  script writes the pair [B, A]; reading the file back gives that pair, and
  \<^verbatim>\<open>hasSameGroup\<close> of the generated grouping against it is false.
\<close>

theorem C7_reread_grouping_not_same:
  "main (\<lambda>_. 0) \<lparr>last_brief_json = None, students_json = Some (Json [''A'', ''B''])\<rparr>
   = Some (Inr (\<lparr>last_brief_json = Some (Json [[JStr ''B'', JStr ''A'']]),
                  students_json = Some (Json [''A'', ''B''])\<rparr>,
                [[Str ''B'', Str ''A'']]))
   \<and> read_last_brief \<lparr>last_brief_json = Some (Json [[JStr ''B'', JStr ''A'']]),
                       students_json = Some (Json [''A'', ''B''])\<rparr>
     = Inr (Some [[Str ''B'', Str ''A'']])
   \<and> hasSameGroup (map Arr [[Str ''B'', Str ''A'']]) (Some [[Str ''B'', Str ''A'']]) = False"
proof -
  have "do_while (\<lambda>_. 0) None (initial [''A'', ''B''])
        = Some \<lparr>peoples = [], groups = [[Str ''B'', Str ''A'']], calls = 1\<rparr>"
    using do_while_nonempty [of "[''A'', ''B'']" "\<lambda>_. 0"] by (simp add: eval_AB_zero)
  then show ?thesis
    by (simp add: main_def read_last_brief_def read_students_def JSON_parse_def
        JSON_stringify_def hasSameGroup_def array_includes_def)
qed

text \<open>
  Claim C8. A missing state file is no error: the previous grouping is \<^verbatim>\<open>null\<close>, the
  collision check is then false on every grouping, and the retry loop returns the first
  candidate, which the script writes and prints.
\<close>

theorem C8_missing_state_file_first_run:
  assumes "last_brief_json fs = None"
  shows "read_last_brief fs = Inr None
       \<and> hasSameGroup grp None = False
       \<and> do_while rnd None (initial pool) = Some (pair_loop rnd (initial pool))
       \<and> (read_students fs = Inr pool \<longrightarrow>
            main rnd fs =
              Some (Inr (fs\<lparr>last_brief_json :=
                              Some (Json (JSON_stringify (groups (pair_loop rnd (initial pool)))))\<rparr>,
                         groups (pair_loop rnd (initial pool)))))"
proof -
  have r: "read_last_brief fs = Inr None"
    using assms by (simp add: read_last_brief_def)
  have h: "hasSameGroup grp None = False" for grp
    by (simp add: hasSameGroup_def)
  have dw: "do_while rnd None (initial pool) = Some (pair_loop rnd (initial pool))"
    by (rule do_while_once) (simp add: h)
  show ?thesis using r h dw by (simp add: main_returns)
qed

theorem C8_missing_state_file_first_run_witness:
  "read_last_brief \<lparr>last_brief_json = None, students_json = Some (Json [''A'', ''B''])\<rparr> = Inr None
   \<and> do_while (\<lambda>_. 0) None (initial [''A'', ''B'']) = Some (pair_loop (\<lambda>_. 0) (initial [''A'', ''B'']))
   \<and> main (\<lambda>_. 0) \<lparr>last_brief_json = None, students_json = Some (Json [''A'', ''B''])\<rparr>
     = Some (Inr (\<lparr>last_brief_json =
                      Some (Json (JSON_stringify (groups (pair_loop (\<lambda>_. 0) (initial [''A'', ''B'']))))),
                    students_json = Some (Json [''A'', ''B''])\<rparr>,
                  groups (pair_loop (\<lambda>_. 0) (initial [''A'', ''B'']))))"
  using C8_missing_state_file_first_run
    [of "\<lparr>last_brief_json = None, students_json = Some (Json [''A'', ''B''])\<rparr>"
        "[]" "\<lambda>_. 0" "[''A'', ''B'']"]
  by (simp add: read_students_def)

text \<open>
  Claim C9. With an empty pool and a non-empty previous grouping the script never returns:
  a pass of the body leaves the variables as they are, the candidate stays empty,
  \<^verbatim>\<open>hasSameGroup\<close> is true on it, and the retry loop has no result.
\<close>

theorem C9_empty_pool_never_returns:
  assumes "lb \<noteq> []"
  shows "pair_loop rnd (initial []) = initial []
       \<and> groups (initial []) = []
       \<and> hasSameGroup (map Arr []) (Some lb) = True
       \<and> do_while rnd (Some lb) (initial []) = None
       \<and> (read_last_brief fs = Inr (Some lb) \<and> read_students fs = Inr [] \<longrightarrow> main rnd fs = None)"
proof -
  have p: "pair_loop rnd (initial []) = initial []"
    by (simp add: pair_loop_empty initial_def)
  have h: "hasSameGroup (map Arr []) (Some lb) = True"
    using assms hasSameGroup_groups [of "[]" "Some lb"] by simp
  have d: "do_while rnd (Some lb) (initial []) = None"
    using assms by (simp add: initial_def do_while_diverges)
  show ?thesis using p h d by (simp add: main_def initial_def)
qed

theorem C9_empty_pool_never_returns_witness:
  "do_while (\<lambda>_. 0) (Some [[Str ''A'', Str ''B'']]) (initial []) = None
   \<and> main (\<lambda>_. 0) \<lparr>last_brief_json = Some (Json [[JStr ''A'', JStr ''B'']]),
                     students_json = Some (Json [])\<rparr> = None"
  using C9_empty_pool_never_returns
    [of "[[Str ''A'', Str ''B'']]" "\<lambda>_. 0"
        "\<lparr>last_brief_json = Some (Json [[JStr ''A'', JStr ''B'']]), students_json = Some (Json [])\<rparr>"]
  by (simp add: read_last_brief_def read_students_def JSON_parse_def)

text \<open>
  Claim C10. For an odd-length pool, and random numbers in \<open>[0, 1)\<close>, the last pair is
  the one participant left over with \<^verbatim>\<open>undefined\<close>, every pair before it is a pair of two
  participants, and the script returns normally with that grouping written and printed.
\<close>

theorem C10_odd_pool_last_pair_undefined:
  assumes range: "\<forall>i. 0 \<le> rnd i \<and> rnd i < 1"
    and od: "odd (length pool)"
  shows "\<exists>earlier x.
           groups (pair_loop rnd (initial pool)) = earlier @ [[Str x, Undefined]]
         \<and> length earlier = length pool div 2
         \<and> (\<forall>g \<in> set earlier. \<exists>a b. g = [Str a, Str b])
         \<and> add_mset (Str x) (mset (concat earlier)) = mset (map Str pool)
         \<and> do_while rnd last_brief (initial pool) = Some (pair_loop rnd (initial pool))
         \<and> (read_last_brief fs = Inr last_brief \<and> read_students fs = Inr pool \<longrightarrow>
              main rnd fs =
                Some (Inr (fs\<lparr>last_brief_json :=
                                Some (Json (JSON_stringify (earlier @ [[Str x, Undefined]])))\<rparr>,
                           earlier @ [[Str x, Undefined]])))"
proof -
  have ne: "pool \<noteq> []" using od by auto
  have "odd (length (peoples (initial pool)))" using od by (simp add: initial_def)
  from pair_loop_odd [OF range this]
  obtain earlier x where g: "groups (pair_loop rnd (initial pool)) = earlier @ [[Str x, Undefined]]"
    and l: "length earlier = length pool div 2"
    and w: "\<forall>g \<in> set earlier. \<exists>a b. g = [Str a, Str b]"
    and m: "add_mset (Str x) (mset (concat earlier)) = mset (map Str pool)"
    by (auto simp: initial_def)
  have dw: "do_while rnd last_brief (initial pool) = Some (pair_loop rnd (initial pool))"
    using ne by (rule do_while_nonempty)
  have mn: "read_last_brief fs = Inr last_brief \<and> read_students fs = Inr pool \<longrightarrow>
              main rnd fs =
                Some (Inr (fs\<lparr>last_brief_json :=
                                Some (Json (JSON_stringify (earlier @ [[Str x, Undefined]])))\<rparr>,
                           earlier @ [[Str x, Undefined]]))"
    using main_returns [OF _ _ dw, of fs] g by simp
  show ?thesis using g l w m dw mn by blast
qed

theorem C10_odd_pool_last_pair_undefined_witness:
  "\<exists>earlier x.
      groups (pair_loop (\<lambda>_. 0) (initial [''A'', ''B'', ''C''])) = earlier @ [[Str x, Undefined]]
    \<and> length earlier = 1
    \<and> add_mset (Str x) (mset (concat earlier)) = mset (map Str [''A'', ''B'', ''C''])
    \<and> main (\<lambda>_. 0) \<lparr>last_brief_json = None, students_json = Some (Json [''A'', ''B'', ''C''])\<rparr>
        = Some (Inr (\<lparr>last_brief_json = Some (Json (JSON_stringify (earlier @ [[Str x, Undefined]]))),
                       students_json = Some (Json [''A'', ''B'', ''C''])\<rparr>,
                     earlier @ [[Str x, Undefined]]))"
proof -
  have r: "\<forall>i. (0::real) \<le> (\<lambda>_. 0) i \<and> (\<lambda>_. 0 :: real) i < 1" by simp
  have o: "odd (length [''A'', ''B'', ''C''])" by simp
  have "\<exists>earlier x.
      groups (pair_loop (\<lambda>_. 0) (initial [''A'', ''B'', ''C''])) = earlier @ [[Str x, Undefined]]
    \<and> length earlier = 1
    \<and> (\<forall>g \<in> set earlier. \<exists>a b. g = [Str a, Str b])
    \<and> add_mset (Str x) (mset (concat earlier)) = mset (map Str [''A'', ''B'', ''C''])
    \<and> do_while (\<lambda>_. 0) None (initial [''A'', ''B'', ''C''])
        = Some (pair_loop (\<lambda>_. 0) (initial [''A'', ''B'', ''C'']))
    \<and> main (\<lambda>_. 0) \<lparr>last_brief_json = None, students_json = Some (Json [''A'', ''B'', ''C''])\<rparr>
        = Some (Inr (\<lparr>last_brief_json = Some (Json (JSON_stringify (earlier @ [[Str x, Undefined]]))),
                       students_json = Some (Json [''A'', ''B'', ''C''])\<rparr>,
                     earlier @ [[Str x, Undefined]]))"
    using C10_odd_pool_last_pair_undefined [OF r o, of None
        "\<lparr>last_brief_json = None, students_json = Some (Json [''A'', ''B'', ''C''])\<rparr>"]
    by (simp add: read_last_brief_def read_students_def)
  then show ?thesis by blast
qed

end
